theory Spec2Isabelle
  imports Complex_Main "HOL-Library.Stream"
begin

section \<open>Truncated Gaussian rejection sampler\<close>

text \<open>
  A shallow embedding of \<^verbatim>\<open>scripts/truncated_gaussian_sampler.py\<close> and of
  \<^verbatim>\<open>scripts/MonteCarloSampler.py\<close>.

  \<^item> Python floats are read as real numbers (type \<open>real\<close>): rounding, overflow and
    NaN are outside the model. The exceptions that Python raises on exact conditions are
    kept as values of type \<open>error\<close>: a float division by zero, \<^verbatim>\<open>math.log\<close> and
    \<^verbatim>\<open>math.sqrt\<close> outside their domain, and the lookup of a global name that the
    module never binds.
  \<^item> \<^verbatim>\<open>x ** k\<close> with a float \<open>k\<close> whose value is a natural number is the power
    \<open>x ^ k\<close>.
  \<^item> The generator behind \<^verbatim>\<open>np.random.uniform()\<close> is the stream of the values it
    will return: a draw reads the head and leaves the tail as the new state.
  \<^item> The \<^verbatim>\<open>while\<close> loop has no iteration bound, so it is a partial function:
    \<open>None\<close> means that the loop runs forever.
\<close>

subsection \<open>Errors\<close>

datatype error = ZeroDivisionError | ValueError | NameError

subsection \<open>The function-based script\<close>

text \<open>One summand of the loop body of \<^verbatim>\<open>err\<close> (line 14).\<close>

definition err_term :: "real \<Rightarrow> nat \<Rightarrow> real" where
  "err_term x i = ((- 1) ^ i) * (x ^ (2 * i + 1)) / (real (fact i) * real (2 * i + 1))"

text \<open>\<^verbatim>\<open>err\<close>: the accumulator starts at 0 and runs over \<^verbatim>\<open>range(125)\<close>.\<close>

definition err :: "real \<Rightarrow> real" where
  "err x =
     (let err_x = fold (\<lambda>i err_x. err_x + err_term x i) [0..<125] 0
      in (2 / sqrt pi) * err_x)"

definition Phi :: "real \<Rightarrow> real" where
  "Phi x = 0.5 * (1 + err (x / sqrt 2))"

text \<open>
  \<^verbatim>\<open>inverse_exp\<close>: \<^verbatim>\<open>math.log\<close> raises ValueError on an argument that is not
  positive; it is evaluated before the division, which raises ZeroDivisionError.
\<close>

definition inverse_exp :: "real \<Rightarrow> real \<Rightarrow> error + real" where
  "inverse_exp x lambda_0 =
     (if 1 - x \<le> 0 then Inl ValueError
      else if lambda_0 = 0 then Inl ZeroDivisionError
      else Inr (- 1 * ln (1 - x) / lambda_0))"

definition expo :: "real \<Rightarrow> real \<Rightarrow> real" where
  "expo x lambda_0 = lambda_0 * exp (- lambda_0 * x)"

definition phi :: "real \<Rightarrow> real" where
  "phi x = exp ((- (x ^ 2)) / 2) / sqrt (2 * pi)"

text \<open>Line 36: the rate of the exponential proposal.\<close>

definition tuned_lambda_0 :: "real \<Rightarrow> real" where
  "tuned_lambda_0 c = (c + sqrt (c ^ 2 + 4)) / 2"

text \<open>
  Lines 35 to 38, the tuning step of \<^verbatim>\<open>truncated_gaussian_sampler\<close>: it returns
  \<open>(lambda_0, const)\<close>, or the exception of \<^verbatim>\<open>math.sqrt\<close> or of the division
  in \<open>b\<close>.
\<close>

definition tune :: "real \<Rightarrow> error + real \<times> real" where
  "tune c =
     (let Phi_c = Phi c in
      if c ^ 2 + 4 < 0 then Inl ValueError
      else
        let lambda_0 = tuned_lambda_0 c;
            d = sqrt (2 * pi) * lambda_0 * (1 - Phi_c)
        in if d = 0 then Inl ZeroDivisionError
           else
             let b = exp ((lambda_0 ^ 2 - 2 * lambda_0 * c) / 2) / d;
                 const = (1 - Phi_c) * b
             in Inr (lambda_0, const))"

text \<open>Line 43: the acceptance ratio \<open>r\<close>; the division by \<open>expo\<close> can raise.\<close>

definition acceptance_ratio :: "real \<Rightarrow> real \<Rightarrow> real \<Rightarrow> real \<Rightarrow> error + real" where
  "acceptance_ratio c lambda_0 const x =
     (if expo x lambda_0 = 0 then Inl ZeroDivisionError
      else Inr (phi (x + c) / expo x lambda_0 * const))"

text \<open>\<^verbatim>\<open>np.random.uniform()\<close>: the value drawn and the generator after the draw.\<close>

definition uniform :: "real stream \<Rightarrow> real \<times> real stream" where
  "uniform rng = (shd rng, stl rng)"

text \<open>
  Lines 40 to 46, the rejection loop. The state is the list \<open>samples\<close> and the
  generator; an exception leaves the loop at once.
\<close>

partial_function (option) sampler_loop ::
  "int \<Rightarrow> real \<Rightarrow> real \<Rightarrow> real \<Rightarrow> real list \<Rightarrow> real stream
    \<Rightarrow> (error + real list \<times> real stream) option" where
  "sampler_loop n c lambda_0 const samples rng =
     (if int (length samples) < n then
        (case uniform rng of (x_inv, rng1) \<Rightarrow>
          (case inverse_exp x_inv lambda_0 of
             Inl e \<Rightarrow> Some (Inl e)
           | Inr x \<Rightarrow>
              (case acceptance_ratio c lambda_0 const x of
                 Inl e \<Rightarrow> Some (Inl e)
               | Inr r \<Rightarrow>
                  (case uniform rng1 of (coin, rng2) \<Rightarrow>
                     if coin < r
                     then sampler_loop n c lambda_0 const (samples @ [x + c]) rng2
                     else sampler_loop n c lambda_0 const samples rng2))))
      else Some (Inr (samples, rng)))"

text \<open>
  \<^verbatim>\<open>truncated_gaussian_sampler(n, c)\<close>: the samples in acceptance order and the
  generator state it leaves.
\<close>

definition truncated_gaussian_sampler ::
  "int \<Rightarrow> real \<Rightarrow> real stream \<Rightarrow> (error + real list \<times> real stream) option" where
  "truncated_gaussian_sampler n c rng =
     (case tune c of
        Inl e \<Rightarrow> Some (Inl e)
      | Inr (lambda_0, const) \<Rightarrow> sampler_loop n c lambda_0 const [] rng)"

subsection \<open>The class-based script\<close>

text \<open>
  \<^verbatim>\<open>scripts/MonteCarloSampler.py\<close> holds the same functions as methods of a class
  without fields. The file has no \<^verbatim>\<open>import\<close> statement, and its method bodies
  read the global names \<^verbatim>\<open>math\<close> and \<^verbatim>\<open>np\<close>: Python looks a global name up
  when the expression is evaluated and raises NameError when the module does not bind it.
  The methods therefore take the global names that their module binds.
\<close>

datatype py_globals = Globals (binds_math: bool) (binds_np: bool)

text \<open>The global names that \<^verbatim>\<open>MonteCarloSampler.py\<close> binds: neither of the two.\<close>

definition MonteCarloSampler_globals :: py_globals where
  "MonteCarloSampler_globals = Globals False False"

text \<open>
  The methods, in the order of the file. In each of them the lookup of \<^verbatim>\<open>math\<close>
  (of \<^verbatim>\<open>np\<close> for a draw) comes before every other operation that can raise, so
  it is the first check of the model. In \<^verbatim>\<open>err\<close> the range is not empty and its
  first iteration reads \<^verbatim>\<open>math.factorial\<close>; the summand of line 8 is the one of the
  function-based script.
\<close>

definition MonteCarloSampler_err :: "py_globals \<Rightarrow> real \<Rightarrow> error + real" where
  "MonteCarloSampler_err g x =
     (if \<not> binds_math g then Inl NameError
      else
        let err_x = fold (\<lambda>i err_x. err_x + err_term x i) [0..<125] 0
        in Inr ((2 / sqrt pi) * err_x))"

definition MonteCarloSampler_Phi :: "py_globals \<Rightarrow> real \<Rightarrow> error + real" where
  "MonteCarloSampler_Phi g x =
     (if \<not> binds_math g then Inl NameError
      else case MonteCarloSampler_err g (x / sqrt 2) of
             Inl e \<Rightarrow> Inl e
           | Inr v \<Rightarrow> Inr (0.5 * (1 + v)))"

definition MonteCarloSampler_inverse_exp :: "py_globals \<Rightarrow> real \<Rightarrow> real \<Rightarrow> error + real" where
  "MonteCarloSampler_inverse_exp g x lambda_0 =
     (if \<not> binds_math g then Inl NameError
      else if 1 - x \<le> 0 then Inl ValueError
      else if lambda_0 = 0 then Inl ZeroDivisionError
      else Inr (- 1 * ln (1 - x) / lambda_0))"

definition MonteCarloSampler_expo :: "py_globals \<Rightarrow> real \<Rightarrow> real \<Rightarrow> error + real" where
  "MonteCarloSampler_expo g x lambda_0 =
     (if \<not> binds_math g then Inl NameError else Inr (lambda_0 * exp (- lambda_0 * x)))"

definition MonteCarloSampler_phi :: "py_globals \<Rightarrow> real \<Rightarrow> error + real" where
  "MonteCarloSampler_phi g x =
     (if \<not> binds_math g then Inl NameError
      else Inr (exp ((- (x ^ 2)) / 2) / sqrt (2 * pi)))"

text \<open>Lines 29 to 32, the tuning step of the method; line 37, its acceptance ratio.\<close>

definition MonteCarloSampler_tune :: "py_globals \<Rightarrow> real \<Rightarrow> error + real \<times> real" where
  "MonteCarloSampler_tune g c =
     (case MonteCarloSampler_Phi g c of
        Inl e \<Rightarrow> Inl e
      | Inr Phi_c \<Rightarrow>
         if \<not> binds_math g then Inl NameError
         else if c ^ 2 + 4 < 0 then Inl ValueError
         else
           let lambda_0 = (c + sqrt (c ^ 2 + 4)) / 2;
               d = sqrt (2 * pi) * lambda_0 * (1 - Phi_c)
           in if d = 0 then Inl ZeroDivisionError
              else
                let b = exp ((lambda_0 ^ 2 - 2 * lambda_0 * c) / 2) / d;
                    const = (1 - Phi_c) * b
                in Inr (lambda_0, const))"

definition MonteCarloSampler_acceptance_ratio ::
  "py_globals \<Rightarrow> real \<Rightarrow> real \<Rightarrow> real \<Rightarrow> real \<Rightarrow> error + real" where
  "MonteCarloSampler_acceptance_ratio g c lambda_0 const x =
     (case MonteCarloSampler_phi g (x + c) of
        Inl e \<Rightarrow> Inl e
      | Inr p \<Rightarrow>
         (case MonteCarloSampler_expo g x lambda_0 of
            Inl e \<Rightarrow> Inl e
          | Inr q \<Rightarrow> if q = 0 then Inl ZeroDivisionError else Inr (p / q * const)))"

definition MonteCarloSampler_uniform :: "py_globals \<Rightarrow> real stream \<Rightarrow> error + real \<times> real stream" where
  "MonteCarloSampler_uniform g rng =
     (if \<not> binds_np g then Inl NameError else Inr (shd rng, stl rng))"

text \<open>Lines 34 to 40, the rejection loop of the method, and the method itself.\<close>

partial_function (option) MonteCarloSampler_loop ::
  "py_globals \<Rightarrow> int \<Rightarrow> real \<Rightarrow> real \<Rightarrow> real \<Rightarrow> real list \<Rightarrow> real stream
    \<Rightarrow> (error + real list \<times> real stream) option" where
  "MonteCarloSampler_loop g n c lambda_0 const samples rng =
     (if int (length samples) < n then
        (case MonteCarloSampler_uniform g rng of
           Inl e \<Rightarrow> Some (Inl e)
         | Inr (x_inv, rng1) \<Rightarrow>
            (case MonteCarloSampler_inverse_exp g x_inv lambda_0 of
               Inl e \<Rightarrow> Some (Inl e)
             | Inr x \<Rightarrow>
                (case MonteCarloSampler_acceptance_ratio g c lambda_0 const x of
                   Inl e \<Rightarrow> Some (Inl e)
                 | Inr r \<Rightarrow>
                    (case MonteCarloSampler_uniform g rng1 of
                       Inl e \<Rightarrow> Some (Inl e)
                     | Inr (coin, rng2) \<Rightarrow>
                        if coin < r
                        then MonteCarloSampler_loop g n c lambda_0 const (samples @ [x + c]) rng2
                        else MonteCarloSampler_loop g n c lambda_0 const samples rng2))))
      else Some (Inr (samples, rng)))"

definition MonteCarloSampler_truncated_gaussian_sampler ::
  "py_globals \<Rightarrow> int \<Rightarrow> real \<Rightarrow> real stream \<Rightarrow> (error + real list \<times> real stream) option" where
  "MonteCarloSampler_truncated_gaussian_sampler g n c rng =
     (case MonteCarloSampler_tune g c of
        Inl e \<Rightarrow> Some (Inl e)
      | Inr (lambda_0, const) \<Rightarrow> MonteCarloSampler_loop g n c lambda_0 const [] rng)"

subsection \<open>The formulas of the specification\<close>




subsection \<open>Auxiliary notions for the proofs\<close>

text \<open>The absolute value of a summand of \<open>err\<close>, for an argument that is not negative.\<close>

definition err_abs :: "real \<Rightarrow> nat \<Rightarrow> real" where
  "err_abs z i = z ^ (2 * i + 1) / (real (fact i) * real (2 * i + 1))"


section \<open>Properties\<close>

subsection \<open>The series of the error function\<close>

lemma fold_add_sum_list: "fold (\<lambda>i a. a + f i) xs a0 = a0 + sum_list (map f xs)"
  by (induction xs arbitrary: a0) (simp_all add: add.assoc)

lemma err_sum: "err x = 2 / sqrt pi * (\<Sum>i<125. err_term x i)"
  by (simp add: err_def fold_add_sum_list interv_sum_list_conv_sum_set_nat atLeast0LessThan)

lemma err_term_0: "err_term 0 i = 0"
  by (simp add: err_term_def)

lemma err_0: "err 0 = 0"
  by (simp add: err_sum err_term_0)

lemma Phi_0: "Phi 0 = 1 / 2"
  by (simp add: Phi_def err_0)

subsection \<open>The tuned rate\<close>

lemma tuned_lambda_0_0: "tuned_lambda_0 0 = 1"
  by (simp add: tuned_lambda_0_def)

lemma abs_less_sqrt: "\<bar>c\<bar> < sqrt (c\<^sup>2 + 4)"
proof -
  have "\<bar>c\<bar> = sqrt (c\<^sup>2)" by simp
  also have "\<dots> < sqrt (c\<^sup>2 + 4)" by (rule real_sqrt_less_mono) simp
  finally show ?thesis .
qed

lemma tuned_lambda_0_pos: "0 < tuned_lambda_0 c"
  using abs_less_sqrt [of c] by (simp add: tuned_lambda_0_def)

lemma tune_cases:
  "tune c = (if Phi c = 1 then Inl ZeroDivisionError
             else Inr (tuned_lambda_0 c,
               (1 - Phi c) * (exp (((tuned_lambda_0 c)\<^sup>2 - 2 * tuned_lambda_0 c * c) / 2)
                 / (sqrt (2 * pi) * tuned_lambda_0 c * (1 - Phi c)))))"
proof -
  have "\<not> c\<^sup>2 + 4 < 0"
    by (smt (verit) zero_le_power2)
  moreover have "tuned_lambda_0 c \<noteq> 0"
    using tuned_lambda_0_pos [of c] by simp
  ultimately show ?thesis
    by (simp add: tune_def Let_def)
qed


subsection \<open>Bounds on the series\<close>

lemma alt_sum_ge_last:
  fixes a :: "nat \<Rightarrow> real"
  assumes "\<And>j. j < m \<Longrightarrow> a (2 * j + 1) \<le> a (2 * j)"
  shows "a (2 * m) \<le> (\<Sum>i<2 * m + 1. (- 1) ^ i * a i)"
  using assms
proof (induction m)
  case 0
  then show ?case by simp
next
  case (Suc m)
  have "a (2 * m) \<le> (\<Sum>i<2 * m + 1. (- 1) ^ i * a i)"
    using Suc by simp
  moreover have "a (2 * m + 1) \<le> a (2 * m)"
    using Suc.prems [of m] by simp
  ultimately show ?case by simp
qed


lemma err_term_alt: "err_term z i = (- 1) ^ i * err_abs z i"
  by (simp add: err_term_def err_abs_def)

lemma err_abs_nonneg: "0 \<le> z \<Longrightarrow> 0 \<le> err_abs z i"
  by (simp add: err_abs_def)

lemma err_abs_Suc:
  "err_abs z (Suc i) = err_abs z i * (z\<^sup>2 * real (2 * i + 1) / (real (i + 1) * real (2 * i + 3)))"
proof -
  define p where "p = z ^ (2 * i + 1)"
  define f :: real where "f = fact i"
  define a where "a = real (2 * i + 1)"
  define b where "b = real (i + 1)"
  define d where "d = real (2 * i + 3)"
  have pos: "0 < f" "0 < a" "0 < b" "0 < d"
    by (simp_all add: f_def a_def b_def d_def)
  have "err_abs z (Suc i) = p * z\<^sup>2 / ((b * f) * d)"
    by (simp add: err_abs_def p_def f_def b_def d_def power2_eq_square algebra_simps)
  also have "\<dots> = p / (f * a) * (z\<^sup>2 * a / (b * d))"
    using pos by (simp add: field_simps)
  finally show ?thesis
    by (simp add: err_abs_def p_def f_def a_def b_def d_def)
qed

lemma err_abs_decreasing:
  assumes "0 \<le> z" and "z\<^sup>2 \<le> 3"
  shows "err_abs z (Suc i) \<le> err_abs z i"
proof -
  have "real i \<le> 2 * real i * real i"
    by (cases i) (simp_all add: algebra_simps)
  then have "3 * real (2 * i + 1) \<le> real (i + 1) * real (2 * i + 3)"
    by (simp add: algebra_simps)
  moreover have "z\<^sup>2 * real (2 * i + 1) \<le> 3 * real (2 * i + 1)"
    using assms(2) by (intro mult_right_mono) simp_all
  ultimately have "z\<^sup>2 * real (2 * i + 1) / (real (i + 1) * real (2 * i + 3)) \<le> 1"
    by simp
  then have "err_abs z i * (z\<^sup>2 * real (2 * i + 1) / (real (i + 1) * real (2 * i + 3)))
      \<le> err_abs z i * 1"
    using err_abs_nonneg [OF assms(1), of i] by (intro mult_left_mono)
  then show ?thesis by (simp add: err_abs_Suc)
qed


lemma err_series_nonneg:
  assumes "0 \<le> z" and "z\<^sup>2 \<le> 3"
  shows "0 \<le> (\<Sum>i<125. err_term z i)"
proof -
  have "err_abs z (2 * 62) \<le> (\<Sum>i<2 * 62 + 1. (- 1) ^ i * err_abs z i)"
    by (rule alt_sum_ge_last) (use err_abs_decreasing [OF assms] in simp)
  then show ?thesis
    using err_abs_nonneg [OF assms(1), of 124] by (simp add: err_term_alt)
qed


lemma err_term_minus: "err_term (- z) i = - err_term z i"
  by (simp add: err_term_def)

lemma err_minus: "err (- z) = - err z"
  by (simp add: err_sum err_term_minus sum_negf)

lemma err_nonneg: "0 \<le> z \<Longrightarrow> z\<^sup>2 \<le> 3 \<Longrightarrow> 0 \<le> err z"
  by (simp add: err_sum err_series_nonneg)

lemma Phi_le_half:
  assumes "c \<le> 0" and "c\<^sup>2 \<le> 6"
  shows "Phi c \<le> 1 / 2"
proof -
  have "(- c / sqrt 2)\<^sup>2 \<le> 3"
    using assms(2) by (simp add: power_divide)
  moreover have "0 \<le> - c / sqrt 2"
    using assms(1) by (intro divide_nonneg_pos) simp_all
  ultimately have "0 \<le> err (- c / sqrt 2)"
    by (rule err_nonneg [rotated])
  then have "err (c / sqrt 2) \<le> 0"
    using err_minus [of "c / sqrt 2"] by simp
  then show ?thesis by (simp add: Phi_def)
qed




subsection \<open>The rejection loop\<close>

lemma sampler_loop_stop:
  "\<not> int (length samples) < n \<Longrightarrow>
     sampler_loop n c lambda_0 const samples rng = Some (Inr (samples, rng))"
  by (subst sampler_loop.simps) simp


lemma inverse_exp_nonneg:
  assumes "inverse_exp u lambda_0 = Inr x" and "0 \<le> u" and "0 < lambda_0"
  shows "0 \<le> x"
proof -
  from assms(1) have pos: "0 < 1 - u" and x: "x = - ln (1 - u) / lambda_0"
    by (simp_all add: inverse_exp_def split: if_splits)
  from pos assms(2) have "ln (1 - u) \<le> 0" by simp
  then have "ln (1 - u) / lambda_0 \<le> 0"
    using assms(3) by (rule divide_nonpos_pos)
  then show ?thesis by (simp add: x)
qed

lemma sampler_loop_induct [consumes 1, case_names stop error_inverse_exp error_ratio accept reject]:
  assumes run: "sampler_loop n c lambda_0 const samples rng = Some y"
    and stop: "\<And>samples rng. \<not> int (length samples) < n \<Longrightarrow> P samples rng (Inr (samples, rng))"
    and error_inverse_exp: "\<And>samples rng e. int (length samples) < n \<Longrightarrow>
          inverse_exp (shd rng) lambda_0 = Inl e \<Longrightarrow> P samples rng (Inl e)"
    and error_ratio: "\<And>samples rng x e. int (length samples) < n \<Longrightarrow>
          inverse_exp (shd rng) lambda_0 = Inr x \<Longrightarrow>
          acceptance_ratio c lambda_0 const x = Inl e \<Longrightarrow> P samples rng (Inl e)"
    and accept: "\<And>samples rng x r y. int (length samples) < n \<Longrightarrow>
          inverse_exp (shd rng) lambda_0 = Inr x \<Longrightarrow>
          acceptance_ratio c lambda_0 const x = Inr r \<Longrightarrow> shd (stl rng) < r \<Longrightarrow>
          P (samples @ [x + c]) (stl (stl rng)) y \<Longrightarrow> P samples rng y"
    and reject: "\<And>samples rng x r y. int (length samples) < n \<Longrightarrow>
          inverse_exp (shd rng) lambda_0 = Inr x \<Longrightarrow>
          acceptance_ratio c lambda_0 const x = Inr r \<Longrightarrow> \<not> shd (stl rng) < r \<Longrightarrow>
          P samples (stl (stl rng)) y \<Longrightarrow> P samples rng y"
  shows "P samples rng y"
proof -
  have "n = n \<longrightarrow> c = c \<longrightarrow> lambda_0 = lambda_0 \<longrightarrow> const = const \<longrightarrow> P samples rng y"
  proof (rule sampler_loop.raw_induct
      [where P = "\<lambda>n' c' l' k' samples rng y.
         n' = n \<longrightarrow> c' = c \<longrightarrow> l' = lambda_0 \<longrightarrow> k' = const \<longrightarrow> P samples rng y", OF _ run])
    fix loop n' c' l' k' samples rng y
    assume IH: "\<And>n' c' l' k' samples rng y. loop n' c' l' k' samples rng = Some y \<Longrightarrow>
        n' = n \<longrightarrow> c' = c \<longrightarrow> l' = lambda_0 \<longrightarrow> k' = const \<longrightarrow> P samples rng y"
    assume step: "(if int (length samples) < n' then
        (case uniform rng of (x_inv, rng1) \<Rightarrow>
          (case inverse_exp x_inv l' of
             Inl e \<Rightarrow> Some (Inl e)
           | Inr x \<Rightarrow>
              (case acceptance_ratio c' l' k' x of
                 Inl e \<Rightarrow> Some (Inl e)
               | Inr r \<Rightarrow>
                  (case uniform rng1 of (coin, rng2) \<Rightarrow>
                     if coin < r
                     then loop n' c' l' k' (samples @ [x + c']) rng2
                     else loop n' c' l' k' samples rng2))))
      else Some (Inr (samples, rng))) = Some y"
    show "n' = n \<longrightarrow> c' = c \<longrightarrow> l' = lambda_0 \<longrightarrow> k' = const \<longrightarrow> P samples rng y"
    proof (intro impI)
      assume eqs: "n' = n" "c' = c" "l' = lambda_0" "k' = const"
      show "P samples rng y"
      proof (cases "int (length samples) < n")
        case False
        with step eqs stop show ?thesis by auto
      next
        case True
        show ?thesis
        proof (cases "inverse_exp (shd rng) lambda_0")
          case (Inl e)
          with step eqs True error_inverse_exp show ?thesis
            by (auto simp: uniform_def)
        next
          case x: (Inr x)
          show ?thesis
          proof (cases "acceptance_ratio c lambda_0 const x")
            case (Inl e)
            with step eqs True x error_ratio show ?thesis
              by (auto simp: uniform_def)
          next
            case r: (Inr r)
            show ?thesis
            proof (cases "shd (stl rng) < r")
              case acc: True
              with step eqs True x r
              have "loop n c lambda_0 const (samples @ [x + c]) (stl (stl rng)) = Some y"
                by (simp add: uniform_def)
              from IH [OF this] have "P (samples @ [x + c]) (stl (stl rng)) y" by simp
              with True x r acc show ?thesis by (rule accept)
            next
              case rej: False
              with step eqs True x r
              have "loop n c lambda_0 const samples (stl (stl rng)) = Some y"
                by (simp add: uniform_def)
              from IH [OF this] have "P samples (stl (stl rng)) y" by simp
              with True x r rej show ?thesis by (rule reject)
            qed
          qed
        qed
      qed
    qed
  qed
  then show ?thesis by simp
qed

lemma sampler_loop_support:
  assumes "sampler_loop n c lambda_0 const samples rng = Some y" and "0 < lambda_0"
  shows "(\<forall>u\<in>sset rng. 0 \<le> u) \<longrightarrow> list_all (\<lambda>s. c \<le> s) samples \<longrightarrow>
         (\<forall>xs rng'. y = Inr (xs, rng') \<longrightarrow> list_all (\<lambda>s. c \<le> s) xs)"
  using assms(1)
proof (induction samples rng y rule: sampler_loop_induct)
  case (accept samples rng x r y)
  show ?case
  proof (intro impI)
    assume u: "\<forall>u\<in>sset rng. 0 \<le> u" and s: "list_all (\<lambda>s. c \<le> s) samples"
    have "0 \<le> x"
      using inverse_exp_nonneg [OF accept(2) _ assms(2)] u shd_sset [of rng] by blast
    moreover have "\<forall>u\<in>sset (stl (stl rng)). 0 \<le> u"
      using u by (meson stl_sset)
    ultimately show "\<forall>xs rng'. y = Inr (xs, rng') \<longrightarrow> list_all (\<lambda>s. c \<le> s) xs"
      using accept.IH s by simp
  qed
next
  case (reject samples rng x r y)
  show ?case
  proof (intro impI)
    assume u: "\<forall>u\<in>sset rng. 0 \<le> u" and s: "list_all (\<lambda>s. c \<le> s) samples"
    have "\<forall>u\<in>sset (stl (stl rng)). 0 \<le> u"
      using u by (meson stl_sset)
    then show "\<forall>xs rng'. y = Inr (xs, rng') \<longrightarrow> list_all (\<lambda>s. c \<le> s) xs"
      using reject.IH s by simp
  qed
qed simp_all




subsection \<open>The acceptance ratio in closed form\<close>

lemma tune_value:
  assumes "Phi c \<noteq> 1"
  shows "tune c = Inr (tuned_lambda_0 c,
           exp (((tuned_lambda_0 c)\<^sup>2 - 2 * tuned_lambda_0 c * c) / 2)
             / (sqrt (2 * pi) * tuned_lambda_0 c))"
  using assms by (simp add: tune_cases)

lemma acceptance_ratio_closed:
  assumes "0 < l"
  shows "acceptance_ratio c l (exp e / (sqrt (2 * pi) * l)) x
           = Inr (exp (- ((x + c)\<^sup>2) / 2 + l * x + e) / (2 * pi * l\<^sup>2))"
proof -
  define A where "A = exp (- ((x + c)\<^sup>2) / 2)"
  define B where "B = exp (l * x)"
  define E where "E = exp e"
  define s where "s = sqrt (2 * pi)"
  have pos: "0 < B" "0 < s"
    by (simp_all add: B_def s_def)
  have sq: "s * s = 2 * pi"
    by (simp add: s_def)
  have expo: "expo x l = l / B"
    by (simp add: expo_def B_def exp_minus divide_inverse)
  have nz: "expo x l \<noteq> 0"
    using assms by (simp add: expo_def)
  have "phi (x + c) / expo x l * (exp e / (sqrt (2 * pi) * l)) = (A / s) / (l / B) * (E / (s * l))"
    by (simp only: phi_def expo A_def E_def s_def)
  also have "\<dots> = (A * B * E) / ((s * s) * (l * l))"
    using assms pos by (simp add: field_simps)
  also have "A * B * E = exp (- ((x + c)\<^sup>2) / 2 + l * x + e)"
    by (simp only: A_def B_def E_def exp_add)
  finally have "phi (x + c) / expo x l * (exp e / (sqrt (2 * pi) * l))
      = exp (- ((x + c)\<^sup>2) / 2 + l * x + e) / (2 * pi * l\<^sup>2)"
    by (simp only: sq power2_eq_square)
  then show ?thesis
    using nz by (simp add: acceptance_ratio_def)
qed

text \<open>
  The bound \<open>b\<close> of the tuning step is the supremum of target density over proposal
  density, so a ratio that divides by \<open>const = (1 - Phi_c) * b\<close> is at most 1.
\<close>

lemma ratio_with_division:
  assumes "0 < l"
  shows "phi (x + c) / (expo x l * (exp ((l\<^sup>2 - 2 * l * c) / 2) / (sqrt (2 * pi) * l)))
           = exp (- ((x + c - l)\<^sup>2) / 2)"
proof -
  define A where "A = exp (- ((x + c)\<^sup>2) / 2)"
  define B where "B = exp (l * x)"
  define E where "E = exp ((l\<^sup>2 - 2 * l * c) / 2)"
  define s where "s = sqrt (2 * pi)"
  have pos: "0 < B" "0 < s" "0 < E"
    by (simp_all add: B_def s_def E_def)
  have expo: "expo x l = l / B"
    by (simp add: expo_def B_def exp_minus divide_inverse)
  have "phi (x + c) / (expo x l * (exp ((l\<^sup>2 - 2 * l * c) / 2) / (sqrt (2 * pi) * l)))
      = (A / s) / ((l / B) * (E / (s * l)))"
    by (simp only: phi_def expo A_def E_def s_def)
  also have "\<dots> = A * B / E"
    using assms pos by (simp add: field_simps)
  also have "\<dots> = exp (- ((x + c)\<^sup>2) / 2 + l * x - (l\<^sup>2 - 2 * l * c) / 2)"
    by (simp only: A_def B_def E_def exp_add exp_diff)
  also have "- ((x + c)\<^sup>2) / 2 + l * x - (l\<^sup>2 - 2 * l * c) / 2 = - ((x + c - l)\<^sup>2) / 2"
    by (simp add: power2_eq_square field_simps)
  finally show ?thesis .
qed

lemma ratio_with_division_le_1:
  assumes "0 < l"
  shows "phi (x + c) / (expo x l * (exp ((l\<^sup>2 - 2 * l * c) / 2) / (sqrt (2 * pi) * l))) \<le> 1"
  by (subst ratio_with_division [OF assms]) simp

text \<open>The tuning and one candidate at \<open>c = - 3 / 2\<close>.\<close>

lemma tuned_lambda_0_example: "tuned_lambda_0 (- 3 / 2) = 1 / 2"
proof -
  have "(- 3 / 2 :: real)\<^sup>2 + 4 = (5 / 2)\<^sup>2"
    by (simp add: power2_eq_square)
  then have "sqrt ((- 3 / 2 :: real)\<^sup>2 + 4) = 5 / 2"
    by (simp only: real_sqrt_abs)
  then show ?thesis
    by (simp add: tuned_lambda_0_def)
qed

lemma Phi_example: "Phi (- 3 / 2) \<noteq> 1"
proof -
  have "Phi (- 3 / 2) \<le> 1 / 2"
    by (rule Phi_le_half) (simp_all add: power2_eq_square)
  then show ?thesis by simp
qed

lemma tune_example: "tune (- 3 / 2) = Inr (1 / 2, exp (7 / 8) / (sqrt (2 * pi) * (1 / 2)))"
proof -
  have "((1 / 2 :: real)\<^sup>2 - 2 * (1 / 2) * (- 3 / 2)) / 2 = 7 / 8"
    by (simp add: power2_eq_square)
  then show ?thesis
    using tune_value [OF Phi_example] by (simp only: tuned_lambda_0_example)
qed

lemma ratio_example:
  "acceptance_ratio (- 3 / 2) (1 / 2) (exp (7 / 8) / (sqrt (2 * pi) * (1 / 2))) 2
     = Inr (2 * exp (7 / 4) / pi)"
proof -
  have "- ((2 + - 3 / 2 :: real)\<^sup>2) / 2 + 1 / 2 * 2 + 7 / 8 = 7 / 4"
    by (simp add: power2_eq_square)
  moreover have "2 * pi * (1 / 2 :: real)\<^sup>2 = pi / 2"
    by (simp add: power2_eq_square)
  ultimately show ?thesis
    using acceptance_ratio_closed [of "1 / 2" "- 3 / 2" "7 / 8" 2]
    by (simp add: power2_eq_square)
qed

lemma ratio_example_gt_1: "1 < 2 * exp (7 / 4 :: real) / pi"
proof -
  have "1 + 7 / 4 \<le> exp (7 / 4 :: real)"
    by (rule exp_ge_add_one_self)
  then have "pi < 2 * exp (7 / 4 :: real)"
    using pi_less_4 by simp
  then show ?thesis
    using pi_gt_zero by (simp add: field_simps)
qed

lemma inverse_exp_example: "inverse_exp (1 - exp (- 1)) (1 / 2) = Inr 2"
  by (simp add: inverse_exp_def)

subsection \<open>Runs at the truncation point 0\<close>

lemma tune_0: "tune 0 = Inr (1, exp (1 / 2) / (sqrt (2 * pi) * 1))"
  using tune_value [of 0] by (simp add: Phi_0 tuned_lambda_0_0)

lemma ratio_at_0:
  "acceptance_ratio 0 1 (exp (1 / 2) / (sqrt (2 * pi) * 1)) x
     = Inr (exp (- (x\<^sup>2) / 2 + x + 1 / 2) / (2 * pi))"
  using acceptance_ratio_closed [of 1 0 "1 / 2" x] by simp


text \<open>
  A generator that draws \<open>99 / 100\<close> every time is rejected by the ratio with the
  division as well, so a run that never returns does not depend on the multiplication.
\<close>

lemma ratio_with_division_rejects:
  "phi (- ln (1 / 100) + 0) / (expo (- ln (1 / 100)) 1 * (exp ((1\<^sup>2 - 2 * 1 * 0) / 2) / (sqrt (2 * pi) * 1)))
     \<le> 99 / (100 :: real)"
proof -
  define x :: real where "x = - ln (1 / 100)"
  have "exp (2 :: real) = exp 1 * exp 1"
    by (simp flip: exp_add)
  also have "\<dots> \<le> 3 * 3"
    by (intro mult_mono exp_le) simp_all
  finally have "exp (2 :: real) \<le> 100" by simp
  then have "2 \<le> ln (100 :: real)"
    by (simp add: ln_ge_iff)
  then have "2 \<le> x"
    by (simp add: x_def ln_div)
  then have "1 * 1 \<le> (x - 1) * (x - 1)"
    by (intro mult_mono) simp_all
  then have "1 \<le> (x - 1)\<^sup>2"
    by (simp add: power2_eq_square)
  then have "- ((x + 0 - 1)\<^sup>2) / 2 \<le> - (1 / 2)"
    by simp
  then have "exp (- ((x + 0 - 1)\<^sup>2) / 2) \<le> exp (- (1 / 2) :: real)"
    by simp
  also have "\<dots> \<le> 99 / 100"
  proof -
    have "1 + 1 / 2 \<le> exp (1 / 2 :: real)"
      by (rule exp_ge_add_one_self)
    then show ?thesis
      by (simp add: exp_minus field_simps)
  qed
  finally show ?thesis
    using ratio_with_division [of 1 x 0] by (simp add: x_def)
qed

lemma sampler_accepts_example:
  "truncated_gaussian_sampler 1 0 (sconst 0) = Some (Inr ([0], sconst 0))"
proof -
  have x: "inverse_exp 0 1 = Inr 0"
    by (simp add: inverse_exp_def)
  have "sampler_loop 1 0 1 (exp (1 / 2) / (sqrt (2 * pi) * 1)) [] (sconst 0)
      = sampler_loop 1 0 1 (exp (1 / 2) / (sqrt (2 * pi) * 1)) [0] (sconst 0)"
    by (subst sampler_loop.simps) (simp add: uniform_def x ratio_at_0 del: mult_1_right)
  also have "\<dots> = Some (Inr ([0], sconst 0))"
    by (rule sampler_loop_stop) simp
  finally show ?thesis
    by (simp only: truncated_gaussian_sampler_def tune_0 sum.case prod.case)
qed



subsection \<open>The class-based script with its global names bound\<close>

lemma MonteCarloSampler_Phi_bound: "binds_math g \<Longrightarrow> MonteCarloSampler_Phi g x = Inr (Phi x)"
  by (simp add: MonteCarloSampler_Phi_def MonteCarloSampler_err_def Phi_def err_def)

lemma MonteCarloSampler_tune_bound: "binds_math g \<Longrightarrow> MonteCarloSampler_tune g c = tune c"
  by (simp add: MonteCarloSampler_tune_def MonteCarloSampler_Phi_bound tune_def tuned_lambda_0_def
      Let_def)

lemma MonteCarloSampler_inverse_exp_bound:
  "binds_math g \<Longrightarrow> MonteCarloSampler_inverse_exp g x lambda_0 = inverse_exp x lambda_0"
  by (simp add: MonteCarloSampler_inverse_exp_def inverse_exp_def)

lemma MonteCarloSampler_acceptance_ratio_bound:
  "binds_math g \<Longrightarrow>
     MonteCarloSampler_acceptance_ratio g c lambda_0 const x = acceptance_ratio c lambda_0 const x"
  by (simp add: MonteCarloSampler_acceptance_ratio_def MonteCarloSampler_phi_def
      MonteCarloSampler_expo_def acceptance_ratio_def phi_def expo_def)

lemma MonteCarloSampler_uniform_bound:
  "binds_np g \<Longrightarrow> MonteCarloSampler_uniform g rng = Inr (uniform rng)"
  by (simp add: MonteCarloSampler_uniform_def uniform_def)

lemma MonteCarloSampler_loop_step:
  assumes "binds_math g" and "binds_np g"
  shows "MonteCarloSampler_loop g n c lambda_0 const samples rng =
     (if int (length samples) < n then
        (case uniform rng of (x_inv, rng1) \<Rightarrow>
          (case inverse_exp x_inv lambda_0 of
             Inl e \<Rightarrow> Some (Inl e)
           | Inr x \<Rightarrow>
              (case acceptance_ratio c lambda_0 const x of
                 Inl e \<Rightarrow> Some (Inl e)
               | Inr r \<Rightarrow>
                  (case uniform rng1 of (coin, rng2) \<Rightarrow>
                     if coin < r
                     then MonteCarloSampler_loop g n c lambda_0 const (samples @ [x + c]) rng2
                     else MonteCarloSampler_loop g n c lambda_0 const samples rng2))))
      else Some (Inr (samples, rng)))"
  using assms
  by (subst MonteCarloSampler_loop.simps)
    (simp add: MonteCarloSampler_uniform_bound MonteCarloSampler_inverse_exp_bound
      MonteCarloSampler_acceptance_ratio_bound uniform_def split: sum.splits)

lemma sampler_loop_imp_MonteCarloSampler_loop:
  assumes "sampler_loop n c lambda_0 const samples rng = Some y"
    and "binds_math g" and "binds_np g"
  shows "MonteCarloSampler_loop g n c lambda_0 const samples rng = Some y"
  using assms(1)
proof (induction samples rng y rule: sampler_loop_induct)
  case (stop samples rng)
  then show ?case
    by (subst MonteCarloSampler_loop_step [OF assms(2,3)]) simp
next
  case (error_inverse_exp samples rng e)
  then show ?case
    by (subst MonteCarloSampler_loop_step [OF assms(2,3)]) (simp add: uniform_def)
next
  case (error_ratio samples rng x e)
  then show ?case
    by (subst MonteCarloSampler_loop_step [OF assms(2,3)]) (simp add: uniform_def)
next
  case (accept samples rng x r y)
  then show ?case
    by (subst MonteCarloSampler_loop_step [OF assms(2,3)]) (simp add: uniform_def)
next
  case (reject samples rng x r y)
  then show ?case
    by (subst MonteCarloSampler_loop_step [OF assms(2,3)]) (simp add: uniform_def)
qed

lemma MonteCarloSampler_loop_imp_sampler_loop:
  assumes "MonteCarloSampler_loop g n c lambda_0 const samples rng = Some y"
  shows "binds_math g \<longrightarrow> binds_np g \<longrightarrow> sampler_loop n c lambda_0 const samples rng = Some y"
proof (rule MonteCarloSampler_loop.raw_induct
    [where P = "\<lambda>g n c lambda_0 const samples rng y.
       binds_math g \<longrightarrow> binds_np g \<longrightarrow> sampler_loop n c lambda_0 const samples rng = Some y",
     OF _ assms], goal_cases)
  case (1 loop g n c lambda_0 const samples rng y)
  show ?case
  proof (intro impI)
    assume g: "binds_math g" "binds_np g"
    show "sampler_loop n c lambda_0 const samples rng = Some y"
      using 1 g
      by (subst sampler_loop.simps)
        (auto simp: MonteCarloSampler_uniform_bound MonteCarloSampler_inverse_exp_bound
          MonteCarloSampler_acceptance_ratio_bound uniform_def split: sum.splits if_splits)
  qed
qed

lemma MonteCarloSampler_loop_bound:
  assumes "binds_math g" and "binds_np g"
  shows "MonteCarloSampler_loop g n c lambda_0 const samples rng
           = sampler_loop n c lambda_0 const samples rng"
proof (cases "sampler_loop n c lambda_0 const samples rng")
  case None
  show ?thesis
  proof (cases "MonteCarloSampler_loop g n c lambda_0 const samples rng")
    case (Some y)
    from MonteCarloSampler_loop_imp_sampler_loop [OF this] assms None show ?thesis by simp
  qed (simp add: None)
next
  case (Some y)
  from sampler_loop_imp_MonteCarloSampler_loop [OF this assms] Some show ?thesis by simp
qed

lemma MonteCarloSampler_equivalent_when_bound:
  assumes "binds_math g" and "binds_np g"
  shows "MonteCarloSampler_truncated_gaussian_sampler g n c rng = truncated_gaussian_sampler n c rng"
  by (simp add: MonteCarloSampler_truncated_gaussian_sampler_def truncated_gaussian_sampler_def
      MonteCarloSampler_tune_bound MonteCarloSampler_loop_bound assms split: sum.splits)

section \<open>The claims\<close>

text \<open>
  C1: the acceptance ratio \<open>r = phi (x + c) / expo x rate * normalizingConstant\<close> of the
  tuned parameters should stay in \<open>[0, 1]\<close> for every \<open>c\<close> and every \<open>x \<ge> 0\<close>.
  The code exceeds 1: at \<open>c = - 3 / 2\<close> the tuning step returns the rate \<open>1 / 2\<close>,
  the draw \<open>u = 1 - exp (- 1)\<close> of \<open>[0, 1)\<close> gives the candidate \<open>x = 2\<close>, and
  there \<open>r = 2 * exp (7 / 4) / pi\<close>, which is more than 1.
\<close>

theorem acceptance_ratio_exceeds_one:
  "tune (- 3 / 2) = Inr (1 / 2, exp (7 / 8) / (sqrt (2 * pi) * (1 / 2))) \<and>
   0 \<le> 1 - exp (- 1 :: real) \<and> 1 - exp (- 1 :: real) < 1 \<and>
   inverse_exp (1 - exp (- 1)) (1 / 2) = Inr 2 \<and>
   acceptance_ratio (- 3 / 2) (1 / 2) (exp (7 / 8) / (sqrt (2 * pi) * (1 / 2))) 2
     = Inr (2 * exp (7 / 4) / pi) \<and>
   1 < 2 * exp (7 / 4 :: real) / pi"
  using tune_example inverse_exp_example ratio_example ratio_example_gt_1 by simp




text \<open>
  C3: when every draw of the generator lies in \<open>[0, 1)\<close>, every element of the
  sequence that the sampler returns is at least \<open>c\<close>: an accepted sample is \<open>x + c\<close>
  with \<open>x = - ln (1 - u) / lambda_0 \<ge> 0\<close>.
\<close>

theorem sampler_support:
  assumes "\<forall>u\<in>sset rng. 0 \<le> u \<and> u < 1"
    and "truncated_gaussian_sampler n c rng = Some (Inr (xs, rng'))"
  shows "list_all (\<lambda>s. c \<le> s) xs"
proof -
  from assms(2) obtain const
    where run: "sampler_loop n c (tuned_lambda_0 c) const [] rng = Some (Inr (xs, rng'))"
    by (auto simp: truncated_gaussian_sampler_def tune_cases split: sum.splits if_splits)
  from sampler_loop_support [OF run tuned_lambda_0_pos] assms(1) show ?thesis
    by simp
qed

theorem sampler_support_witness:
  "truncated_gaussian_sampler 1 0 (sconst 0) = Some (Inr ([0], sconst 0)) \<and>
   list_all (\<lambda>s. 0 \<le> s) [0::real]"
  using sampler_support [of "sconst 0" 1 0 "[0]" "sconst 0"] sampler_accepts_example
  by simp



text \<open>
  C6: in the rejection loop the candidate is \<open>inverse_exp u lambda_0\<close> with the tuned
  rate. For a draw \<open>u\<close> in \<open>[0, 1)\<close> the argument \<open>1 - u\<close> of the logarithm lies in
  \<open>(0, 1]\<close> and the call returns \<open>- ln (1 - u) / lambda_0\<close>; on \<open>[0, 1]\<close> the
  ValueError of the logarithm is raised for \<open>u = 1\<close> only.
\<close>

theorem inverse_exp_log_defined:
  assumes "0 \<le> u" and "u \<le> 1"
  shows "(inverse_exp u (tuned_lambda_0 c) = Inl ValueError) = (u = 1) \<and>
         (u < 1 \<longrightarrow> 0 < 1 - u \<and> 1 - u \<le> 1 \<and>
            inverse_exp u (tuned_lambda_0 c) = Inr (- ln (1 - u) / tuned_lambda_0 c))"
  using assms tuned_lambda_0_pos [of c] by (auto simp: inverse_exp_def)

theorem inverse_exp_log_defined_witness:
  "(0::real) \<le> 1 / 2 \<and> (1 / 2 :: real) < 1 \<and> (0::real) < 1 - 1 / 2 \<and>
   inverse_exp (1 / 2) (tuned_lambda_0 0) \<noteq> Inl ValueError \<and>
   inverse_exp (1 / 2) (tuned_lambda_0 0) = Inr (- ln (1 - 1 / 2) / tuned_lambda_0 0)"
  using inverse_exp_log_defined [of "1 / 2" 0] by simp



text \<open>
  C8: at the truncation point \<open>c = 0\<close> the tuned rate is exactly 1, every summand of
  the 125-term series vanishes, so \<open>err 0 = 0\<close> and \<open>Phi 0 = 0.5\<close>, and the tuning
  step returns the rate 1.
\<close>

theorem tune_at_zero:
  "tuned_lambda_0 0 = 1 \<and> err 0 = 0 \<and> Phi 0 = 0.5 \<and>
   tune 0 = Inr (1, exp (1 / 2) / sqrt (2 * pi))"
  by (simp add: tuned_lambda_0_0 err_0 Phi_0 tune_cases)

text \<open>
  C9: the two scripts should compute the same function. The class-based script does
  not: its module binds neither \<^verbatim>\<open>math\<close> nor \<^verbatim>\<open>np\<close>, so the method raises
  NameError for every \<open>n\<close>, \<open>c\<close> and generator, where the function-based script
  returns the empty sequence for \<open>n = 0\<close> and \<open>c = 0\<close>.
\<close>

theorem MonteCarloSampler_raises_NameError:
  "MonteCarloSampler_truncated_gaussian_sampler MonteCarloSampler_globals n c rng
     = Some (Inl NameError) \<and>
   truncated_gaussian_sampler 0 0 rng = Some (Inr ([], rng))"
  by (simp add: MonteCarloSampler_truncated_gaussian_sampler_def MonteCarloSampler_tune_def
      MonteCarloSampler_Phi_def MonteCarloSampler_globals_def
      truncated_gaussian_sampler_def tune_0 sampler_loop_stop)




end
